theory Spec2Isabelle
  imports Main "HOL-Library.Multiset" "HOL-Library.Sublist"
begin

section \<open>Poker hands (src/poker.py, a Python 2 module)\<close>

text \<open>
  The module is Python 2: it uses \<^verbatim>\<open>xrange\<close> and the three-way comparison hook
  \<^verbatim>\<open>__cmp__\<close>, through which \<^verbatim>\<open>==\<close> and \<^verbatim>\<open>>\<close> on \<^verbatim>\<open>Card\<close> and \<^verbatim>\<open>Hand\<close> objects are
  answered (neither class defines a rich comparison). Exceptions are values of the type
  \<open>error\<close>, carrying the message of the source; a function that can raise returns
  \<open>error + 'a\<close> with \<open>Inl\<close> for the exception.
\<close>

datatype error = ValueError string | IndexError string | TypeError string

definition bind :: "error + 'a \<Rightarrow> ('a \<Rightarrow> error + 'b) \<Rightarrow> error + 'b" where
  "bind m f = (case m of Inl e \<Rightarrow> Inl e | Inr x \<Rightarrow> f x)"

definition CARD_VALUE_ORDER :: string where
  "CARD_VALUE_ORDER = ''a23456789tjqk''"

definition SUITS :: string where
  "SUITS = ''hscd''"

text \<open>\<^verbatim>\<open>set(s)\<close> of a string \<open>s\<close>: its one-character strings.\<close>

definition chars_of :: "string \<Rightarrow> string set" where
  "chars_of s = set (map (\<lambda>c. [c]) s)"

subsection \<open>Card\<close>

text \<open>
  A \<^verbatim>\<open>Card\<close> stores the two strings it was built from. The constructor accepts only
  one-character strings, so the fields are kept as the character each of them consists of.
  The field \<^verbatim>\<open>value\<close> of the source is \<open>card_value\<close> here.
\<close>

record card =
  suit :: char
  card_value :: char

text \<open>\<^verbatim>\<open>Card.__init__\<close>: the suit is checked first, then the value.\<close>

definition Card_init :: "string \<Rightarrow> string \<Rightarrow> error + card" where
  "Card_init v s =
     (if s \<notin> chars_of SUITS then Inl (ValueError ''Not a suit.'')
      else if v \<notin> chars_of CARD_VALUE_ORDER then Inl (ValueError ''Not a value.'')
      else Inr \<lparr>suit = hd s, card_value = hd v\<rparr>)"

text \<open>Writing a card down: value first, as in the two-character strings of the source.\<close>

abbreviation mk_card :: "char \<Rightarrow> char \<Rightarrow> card" where
  "mk_card v s \<equiv> \<lparr>suit = s, card_value = v\<rparr>"

text \<open>The cards the constructor can build.\<close>

definition valid_card :: "card \<Rightarrow> bool" where
  "valid_card c \<longleftrightarrow> suit c \<in> set SUITS \<and> card_value c \<in> set CARD_VALUE_ORDER"

text \<open>\<^verbatim>\<open>s.index(x)\<close> for a one-character \<open>x\<close>: the first position, \<open>None\<close> where Python
  raises \<^verbatim>\<open>ValueError\<close>.\<close>

fun str_index :: "string \<Rightarrow> char \<Rightarrow> nat option" where
  "str_index [] c = None"
| "str_index (x # xs) c = (if x = c then Some 0 else map_option Suc (str_index xs c))"

definition index :: "string \<Rightarrow> char \<Rightarrow> error + nat" where
  "index s c = (case str_index s c of None \<Rightarrow> Inl (ValueError ''substring not found'')
                | Some i \<Rightarrow> Inr i)"

text \<open>
  \<^verbatim>\<open>Card.__cmp__\<close>. Both indices are looked up from \<^verbatim>\<open>self.value\<close>, as the source has it
  (line 32 reads \<^verbatim>\<open>other_index = CARD_VALUE_ORDER.index(self.value)\<close>).
\<close>

definition Card_cmp :: "card \<Rightarrow> card \<Rightarrow> error + int" where
  "Card_cmp self other =
     (if suit self \<noteq> suit other then Inl (ValueError ''Comparing different cards.'')
      else bind (index CARD_VALUE_ORDER (card_value self)) (\<lambda>self_idx.
           bind (index CARD_VALUE_ORDER (card_value self)) (\<lambda>other_index.
           Inr (int other_index - int self_idx))))"

text \<open>\<^verbatim>\<open>a == b\<close> on cards: Python 2 calls \<^verbatim>\<open>a.__cmp__(b)\<close> and tests the result against 0;
  an exception of \<^verbatim>\<open>__cmp__\<close> propagates.\<close>

definition Card_eq :: "card \<Rightarrow> card \<Rightarrow> error + bool" where
  "Card_eq a b = bind (Card_cmp a b) (\<lambda>c. Inr (c = 0))"

text \<open>\<^verbatim>\<open>Card.__str__\<close>, and \<^verbatim>\<open>Card.__hash__\<close> = \<^verbatim>\<open>hash(str(self))\<close>. The hash of a string is
  represented by the string: the unrandomised string hash of CPython 2 takes 52 different
  values on the 52 two-character card strings, at 32 and at 64 bits.\<close>

definition Card_str :: "card \<Rightarrow> string" where
  "Card_str c = [card_value c, suit c]"

definition Card_hash :: "card \<Rightarrow> string" where
  "Card_hash c = Card_str c"

text \<open>
  Whether a hash set or dict takes a stored key \<open>k\<close> and a probed key \<open>c\<close> for the same
  element: the hashes agree and then \<^verbatim>\<open>k == c\<close> is true. CPython compares the keys only
  when the hashes agree.
\<close>

definition same_key :: "card \<Rightarrow> card \<Rightarrow> bool" where
  "same_key k c \<longleftrightarrow> Card_hash k = Card_hash c \<and> Card_eq k c = Inr True"

subsection \<open>Hand\<close>

record hand =
  cards :: "card list"

text \<open>\<^verbatim>\<open>Hand.__init__\<close>.\<close>

definition Hand_init :: "card list \<Rightarrow> error + hand" where
  "Hand_init cs =
     (if length cs \<noteq> 5 then Inl (ValueError ''A hand has 5 cards.'')
      else Inr \<lparr>cards = cs\<rparr>)"

text \<open>The hands that the two constructors can build.\<close>

definition valid_hand :: "hand \<Rightarrow> bool" where
  "valid_hand h \<longleftrightarrow> length (cards h) = 5 \<and> (\<forall>c \<in> set (cards h). valid_card c)"

text \<open>\<^verbatim>\<open>Hand._sort_by_value\<close>: \<^verbatim>\<open>sorted\<close> computes the key of every element first (and raises
  if one lookup fails), then sorts stably; the one-character strings are joined.\<close>

definition sort_by_value :: "hand \<Rightarrow> error + string" where
  "sort_by_value h =
     (let vs = map card_value (cards h) in
      if \<exists>v \<in> set vs. str_index CARD_VALUE_ORDER v = None
      then Inl (ValueError ''substring not found'')
      else Inr (sort_key (\<lambda>x. the (str_index CARD_VALUE_ORDER x)) vs))"

text \<open>\<^verbatim>\<open>Hand._max_values\<close>: the expression \<^verbatim>\<open>self._sort_by_value()[-1]\<close> is evaluated and
  dropped; the method has no \<^verbatim>\<open>return\<close>, so its result is \<^verbatim>\<open>None\<close>.\<close>

definition max_values :: "hand \<Rightarrow> error + string option" where
  "max_values h =
     bind (sort_by_value h) (\<lambda>vs.
       if vs = [] then Inl (IndexError ''string index out of range'') else Inr None)"

text \<open>\<^verbatim>\<open>Hand._same_suit\<close>.\<close>

definition same_suit :: "hand \<Rightarrow> error + bool" where
  "same_suit h =
     (case cards h of
        [] \<Rightarrow> Inl (IndexError ''list index out of range'')
      | head # _ \<Rightarrow> Inr (list_all (\<lambda>c. suit c = suit head) (cards h)))"

text \<open>\<^verbatim>\<open>Hand._count\<close>: the dict is an association list; \<^verbatim>\<open>count.get(k, 0)\<close> is
  \<open>dict_get\<close>.\<close>

definition dict_get :: "('k \<times> 'v) list \<Rightarrow> 'k \<Rightarrow> 'v \<Rightarrow> 'v" where
  "dict_get d k dflt = (case map_of d k of None \<Rightarrow> dflt | Some v \<Rightarrow> v)"

fun dict_set :: "('k \<times> 'v) list \<Rightarrow> 'k \<Rightarrow> 'v \<Rightarrow> ('k \<times> 'v) list" where
  "dict_set [] k v = [(k, v)]"
| "dict_set ((k', v') # d) k v = (if k' = k then (k, v) # d else (k', v') # dict_set d k v)"

definition count :: "hand \<Rightarrow> (char \<times> int) list" where
  "count h = fold (\<lambda>c cnt. dict_set cnt (card_value c) (dict_get cnt (card_value c) 0 + 1))
                  (cards h) []"

text \<open>\<^verbatim>\<open>sorted(count.values())\<close>.\<close>

definition sorted_counts :: "hand \<Rightarrow> int list" where
  "sorted_counts h = sort (map snd (count h))"

text \<open>\<^verbatim>\<open>Hand._straight\<close>: \<^verbatim>\<open>values in CARD_VALUE_ORDER\<close> is the substring test.\<close>

definition straight :: "hand \<Rightarrow> error + bool" where
  "straight h = bind (sort_by_value h) (\<lambda>values. Inr (sublist values CARD_VALUE_ORDER))"

text \<open>
  The nine predicates return \<^verbatim>\<open>False\<close> or their category code (\<^verbatim>\<open>b and n\<close> is \<open>n\<close> when
  \<open>b\<close> is true and \<^verbatim>\<open>False\<close> otherwise; \<^verbatim>\<open>and\<close> does not evaluate its right operand when the
  left one is false).
\<close>

datatype handtype = PyFalse | Code int

fun truthy :: "handtype \<Rightarrow> bool" where
  "truthy PyFalse = False"
| "truthy (Code n) = (n \<noteq> 0)"

definition and_code :: "bool \<Rightarrow> int \<Rightarrow> handtype" where
  "and_code b n = (if b then Code n else PyFalse)"

definition is_royal_flush :: "hand \<Rightarrow> error + handtype" where
  "is_royal_flush h =
     bind (same_suit h) (\<lambda>ss.
       if ss then Inr (and_code (set (map card_value (cards h)) = set ''akqjt'') 1)
       else Inr PyFalse)"

definition is_straight_flush :: "hand \<Rightarrow> error + handtype" where
  "is_straight_flush h =
     bind (same_suit h) (\<lambda>ss.
       if \<not> ss then Inr PyFalse
       else bind (straight h) (\<lambda>st. Inr (and_code st 2)))"

definition is_poker :: "hand \<Rightarrow> error + handtype" where
  "is_poker h = Inr (and_code ([1, 4] = sorted_counts h) 3)"

definition is_full :: "hand \<Rightarrow> error + handtype" where
  "is_full h = Inr (and_code ([2, 3] = sorted_counts h) 4)"

definition is_flush :: "hand \<Rightarrow> error + handtype" where
  "is_flush h = bind (same_suit h) (\<lambda>ss. Inr (and_code ss 5))"

definition is_straight :: "hand \<Rightarrow> error + handtype" where
  "is_straight h = bind (straight h) (\<lambda>st. Inr (and_code st 6))"

definition is_set :: "hand \<Rightarrow> error + handtype" where
  "is_set h = Inr (and_code ([1, 1, 3] = sorted_counts h) 7)"

definition is_two_pair :: "hand \<Rightarrow> error + handtype" where
  "is_two_pair h = Inr (and_code ([1, 2, 2] = sorted_counts h) 8)"

definition is_pair :: "hand \<Rightarrow> error + handtype" where
  "is_pair h = Inr (and_code ([1, 1, 1, 2] = sorted_counts h) 9)"

text \<open>\<^verbatim>\<open>Hand.classify_hand\<close>: the loop over the nine method names returns the first truthy
  result, and 10 when there is none.\<close>

fun first_handtype :: "(hand \<Rightarrow> error + handtype) list \<Rightarrow> hand \<Rightarrow> error + int" where
  "first_handtype [] h = Inr 10"
| "first_handtype (p # ps) h =
     (case p h of
        Inl e \<Rightarrow> Inl e
      | Inr t \<Rightarrow> (if truthy t then (case t of Code n \<Rightarrow> Inr n | PyFalse \<Rightarrow> Inr 0)
                  else first_handtype ps h))"

definition classify_hand :: "hand \<Rightarrow> error + int" where
  "classify_hand h =
     first_handtype [is_royal_flush, is_straight_flush, is_poker, is_full, is_flush,
                     is_straight, is_set, is_two_pair, is_pair] h"

text \<open>
  \<^verbatim>\<open>Hand.__cmp__\<close>. \<^verbatim>\<open>max_\<close> (here \<open>max_self\<close>) and \<^verbatim>\<open>max_other\<close> are \<^verbatim>\<open>None\<close> or a string;
  \<^verbatim>\<open>CARD_VALUE_ORDER.index\<close> of \<^verbatim>\<open>None\<close> raises \<^verbatim>\<open>TypeError\<close>. The chain of conditions
  covers every pair of integers; falling off its end would return \<^verbatim>\<open>None\<close>, which the
  caller of \<^verbatim>\<open>__cmp__\<close> rejects with \<^verbatim>\<open>TypeError\<close>.
\<close>

definition index_of_max :: "string option \<Rightarrow> error + nat" where
  "index_of_max m =
     (case m of
        Some [c] \<Rightarrow> index CARD_VALUE_ORDER c
      | Some _ \<Rightarrow> Inl (ValueError ''substring not found'')
      | None \<Rightarrow> Inl (TypeError ''expected a string or other character buffer object''))"

definition Hand_cmp :: "hand \<Rightarrow> hand \<Rightarrow> error + int" where
  "Hand_cmp self other =
     bind (classify_hand self) (\<lambda>handtype.
     bind (classify_hand other) (\<lambda>other_handtype.
       if handtype < other_handtype then Inr 1
       else if handtype > other_handtype then Inr (- 1)
       else if handtype = other_handtype \<and> handtype = 10 then
         bind (max_values self) (\<lambda>max_self.
         bind (max_values other) (\<lambda>max_other.
           if max_self = max_other then Inr 0
           else if Some ''a'' = max_self then Inr 1
           else if Some ''a'' = max_other then Inr (- 1)
           else bind (index_of_max max_other) (\<lambda>i.
                bind (index_of_max max_self) (\<lambda>j. Inr (int i - int j)))))
       else if handtype = other_handtype then Inr 0
       else Inl (TypeError ''an integer is required'')))"

text \<open>\<^verbatim>\<open>a > b\<close> on hands: Python 2 calls \<^verbatim>\<open>a.__cmp__(b)\<close> and tests the result against 0.\<close>

definition Hand_gt :: "hand \<Rightarrow> hand \<Rightarrow> error + bool" where
  "Hand_gt a b = bind (Hand_cmp a b) (\<lambda>c. Inr (c > 0))"

subsection \<open>Sets of cards\<close>

text \<open>
  A Python \<^verbatim>\<open>set\<close> of cards is the list of its stored keys, none of them the same key as
  another. Membership is decided by \<open>same_key\<close>, that is by \<^verbatim>\<open>__hash__\<close> and \<^verbatim>\<open>__cmp__\<close>.
\<close>

definition set_contains :: "card list \<Rightarrow> card \<Rightarrow> bool" where
  "set_contains s c \<longleftrightarrow> (\<exists>k \<in> set s. same_key k c)"

definition set_add :: "card list \<Rightarrow> card \<Rightarrow> card list" where
  "set_add s c = (if set_contains s c then s else s @ [c])"

text \<open>\<^verbatim>\<open>s.update(xs)\<close>, and \<^verbatim>\<open>set(xs)\<close> as the update of the empty set.\<close>

definition set_update :: "card list \<Rightarrow> card list \<Rightarrow> card list" where
  "set_update s xs = fold (\<lambda>c acc. set_add acc c) xs s"

definition py_set :: "card list \<Rightarrow> card list" where
  "py_set xs = set_update [] xs"

text \<open>\<^verbatim>\<open>s - t\<close>.\<close>

definition set_diff :: "card list \<Rightarrow> card list \<Rightarrow> card list" where
  "set_diff s t = filter (\<lambda>c. \<not> set_contains t c) s"

text \<open>
  The order in which CPython iterates over a set follows the slots of its hash table and is
  not fixed by the language. It is a parameter \<open>iter\<close> of the search, from the stored keys
  to the sequence the iteration produces, of which only \<open>iteration_order\<close> is known: the
  iteration produces every key once.
\<close>

definition iteration_order :: "(card list \<Rightarrow> card list) \<Rightarrow> bool" where
  "iteration_order iter \<longleftrightarrow> (\<forall>s. mset (iter s) = mset s)"

subsection \<open>The replacement search\<close>

text \<open>\<^verbatim>\<open>itertools.combinations(pool, r)\<close>: the \<open>r\<close>-element subsequences of the pool, in
  lexicographic order of their positions.\<close>

fun combinations :: "'a list \<Rightarrow> nat \<Rightarrow> 'a list list" where
  "combinations xs 0 = [[]]"
| "combinations [] (Suc r) = []"
| "combinations (x # xs) (Suc r) = map ((#) x) (combinations xs r) @ combinations xs (Suc r)"

text \<open>
  \<^verbatim>\<open>Hand._search_space\<close>. \<open>candidate\<close> is the list \<^verbatim>\<open>list(cards)\<close> handed to the \<^verbatim>\<open>Hand\<close>
  constructor for one combination \<open>t\<close>; \<open>candidates\<close> is the sequence of these lists over
  \<^verbatim>\<open>xrange(1, 6)\<close> and the combinations of each size. The generator yields the hands built
  from them one at a time, so an element \<open>Inl e\<close> of \<open>search_space\<close> is an exception that the
  consumer meets when it asks for that element.
\<close>

definition candidate ::
  "(card list \<Rightarrow> card list) \<Rightarrow> card list \<Rightarrow> card list \<Rightarrow> nat \<Rightarrow> card list \<Rightarrow> card list" where
  "candidate iter hand_set deck num t =
     iter (set_update (set_diff hand_set (py_set t)) (take num deck))"

definition candidates ::
  "(card list \<Rightarrow> card list) \<Rightarrow> hand \<Rightarrow> card list \<Rightarrow> card list list" where
  "candidates iter hand deck =
     (let hand_set = py_set (cards hand) in
      concat (map (\<lambda>num. map (candidate iter hand_set deck num)
                               (combinations (iter hand_set) num)) [1..<6]))"

definition search_space ::
  "(card list \<Rightarrow> card list) \<Rightarrow> hand \<Rightarrow> card list \<Rightarrow> (error + hand) list" where
  "search_space iter hand deck = map Hand_init (candidates iter hand deck)"


text \<open>\<^verbatim>\<open>Hand.search\<close>: the loop over the generator, with \<open>winning_hand\<close> as its state.\<close>

fun search_loop :: "hand \<Rightarrow> (error + hand) list \<Rightarrow> error + hand" where
  "search_loop winning_hand [] = Inr winning_hand"
| "search_loop winning_hand (Inl e # rest) = Inl e"
| "search_loop winning_hand (Inr new_hand # rest) =
     bind (Hand_gt new_hand winning_hand) (\<lambda>better.
       search_loop (if better then new_hand else winning_hand) rest)"

definition search :: "(card list \<Rightarrow> card list) \<Rightarrow> hand \<Rightarrow> card list \<Rightarrow> error + hand" where
  "search iter hand deck = search_loop hand (search_space iter hand deck)"

section \<open>Properties\<close>

subsection \<open>Cards\<close>

lemma bind_Inr [simp]: "bind (Inr x) f = f x"
  by (simp add: bind_def)

lemma bind_Inl [simp]: "bind (Inl e) f = Inl e"
  by (simp add: bind_def)

lemma str_index_None_iff: "str_index s c = None \<longleftrightarrow> c \<notin> set s"
  by (induction s) auto

lemma index_valid: "valid_card c \<Longrightarrow> \<exists>i. index CARD_VALUE_ORDER (card_value c) = Inr i"
  unfolding index_def valid_card_def
  by (cases "str_index CARD_VALUE_ORDER (card_value c)") (auto simp: str_index_None_iff)

lemma Card_cmp_same_suit: "valid_card a \<Longrightarrow> suit a = suit b \<Longrightarrow> Card_cmp a b = Inr 0"
  using index_valid [of a] by (auto simp: Card_cmp_def)

lemma Card_cmp_other_suit:
  "suit a \<noteq> suit b \<Longrightarrow> Card_cmp a b = Inl (ValueError ''Comparing different cards.'')"
  by (simp add: Card_cmp_def)

lemma same_key_iff: "valid_card k \<Longrightarrow> same_key k c \<longleftrightarrow> k = c"
  by (auto simp: same_key_def Card_hash_def Card_str_def Card_eq_def Card_cmp_same_suit)

lemma chars_of_iff: "x \<in> chars_of s \<longleftrightarrow> (\<exists>c \<in> set s. x = [c])"
  by (auto simp: chars_of_def)

lemma chars_of_card: "distinct s \<Longrightarrow> card (chars_of s) = length s"
proof -
  assume "distinct s"
  then have "distinct (map (\<lambda>c. [c]) s)"
    by (simp add: distinct_map inj_on_def)
  then show ?thesis
    using distinct_card [of "map (\<lambda>c. [c]) s"] by (simp add: chars_of_def)
qed

text \<open>
  Claim C8. \<^verbatim>\<open>Card(value, suit)\<close> raises \<^verbatim>\<open>ValueError\<close> when the suit is not one of the four
  one-character strings of \<^verbatim>\<open>SUITS\<close> and when the value is not one of the thirteen of
  \<^verbatim>\<open>CARD_VALUE_ORDER\<close>, and otherwise builds the card with these two fields;
  \<^verbatim>\<open>Hand(cards)\<close> raises \<^verbatim>\<open>ValueError\<close> when the list does not have exactly 5 elements
  and otherwise builds the hand.
\<close>

theorem card_and_hand_construction:
  "(s \<notin> chars_of SUITS \<longrightarrow> Card_init v s = Inl (ValueError ''Not a suit.'')) \<and>
   (s \<in> chars_of SUITS \<and> v \<notin> chars_of CARD_VALUE_ORDER \<longrightarrow>
      Card_init v s = Inl (ValueError ''Not a value.'')) \<and>
   (s \<in> chars_of SUITS \<and> v \<in> chars_of CARD_VALUE_ORDER \<longrightarrow>
      (\<exists>c. Card_init v s = Inr c \<and> valid_card c \<and> [card_value c] = v \<and> [suit c] = s)) \<and>
   (length cs \<noteq> 5 \<longrightarrow> Hand_init cs = Inl (ValueError ''A hand has 5 cards.'')) \<and>
   (length cs = 5 \<longrightarrow> Hand_init cs = Inr \<lparr>cards = cs\<rparr>) \<and>
   card (chars_of CARD_VALUE_ORDER) = 13 \<and> card (chars_of SUITS) = 4"
proof -
  have "card (chars_of CARD_VALUE_ORDER) = 13"
    by (simp add: chars_of_card CARD_VALUE_ORDER_def)
  moreover have "card (chars_of SUITS) = 4"
    by (simp add: chars_of_card SUITS_def)
  moreover have "\<exists>c. Card_init v s = Inr c \<and> valid_card c \<and> [card_value c] = v \<and> [suit c] = s"
    if "s \<in> chars_of SUITS" "v \<in> chars_of CARD_VALUE_ORDER"
    using that by (auto simp: Card_init_def valid_card_def chars_of_def)
  ultimately show ?thesis
    by (simp add: Card_init_def Hand_init_def)
qed

theorem card_and_hand_construction_witness:
  "Card_init ''a'' ''x'' = Inl (ValueError ''Not a suit.'') \<and>
   Card_init ''1'' ''h'' = Inl (ValueError ''Not a value.'') \<and>
   Card_init ''a'' ''h'' = Inr \<lparr>suit = CHR ''h'', card_value = CHR ''a''\<rparr> \<and>
   Hand_init [] = Inl (ValueError ''A hand has 5 cards.'') \<and>
   Hand_init (replicate 5 \<lparr>suit = CHR ''h'', card_value = CHR ''a''\<rparr>) =
     Inr \<lparr>cards = replicate 5 \<lparr>suit = CHR ''h'', card_value = CHR ''a''\<rparr>\<rparr>"
proof -
  have a: "''x'' \<notin> chars_of SUITS" "''h'' \<in> chars_of SUITS"
    "''1'' \<notin> chars_of CARD_VALUE_ORDER" "''a'' \<in> chars_of CARD_VALUE_ORDER"
    by (simp_all add: chars_of_iff SUITS_def CARD_VALUE_ORDER_def)
  have "Card_init ''a'' ''x'' = Inl (ValueError ''Not a suit.'')"
    using card_and_hand_construction [of "''x''" "''a''" "[]"] a by blast
  moreover have "Card_init ''1'' ''h'' = Inl (ValueError ''Not a value.'')"
    using card_and_hand_construction [of "''h''" "''1''" "[]"] a by blast
  moreover have "Card_init ''a'' ''h'' = Inr \<lparr>suit = CHR ''h'', card_value = CHR ''a''\<rparr>"
    using card_and_hand_construction [of "''h''" "''a''" "[]"] a by auto
  moreover have "Hand_init [] = Inl (ValueError ''A hand has 5 cards.'')"
    using card_and_hand_construction [of "''h''" "''a''" "[]"] by simp
  moreover have "Hand_init (replicate 5 \<lparr>suit = CHR ''h'', card_value = CHR ''a''\<rparr>) =
     Inr \<lparr>cards = replicate 5 \<lparr>suit = CHR ''h'', card_value = CHR ''a''\<rparr>\<rparr>"
    using card_and_hand_construction
      [of "''h''" "''a''" "replicate 5 \<lparr>suit = CHR ''h'', card_value = CHR ''a''\<rparr>"] by simp
  ultimately show ?thesis by blast
qed

text \<open>
  Claim C6 says that two cards of one suit compare by the difference of the positions of
  their ranks, a nonzero number when the ranks differ. \<^verbatim>\<open>Card.__cmp__\<close> looks both positions
  up from \<^verbatim>\<open>self.value\<close>, so on the ace and the two of hearts, whose positions are 0 and 1,
  it returns 0.
\<close>

theorem Card_cmp_ignores_other_rank:
  "Card_cmp \<lparr>suit = CHR ''h'', card_value = CHR ''a''\<rparr> \<lparr>suit = CHR ''h'', card_value = CHR ''2''\<rparr> = Inr 0 \<and>
   index CARD_VALUE_ORDER (CHR ''a'') = Inr 0 \<and> index CARD_VALUE_ORDER (CHR ''2'') = Inr 1"
  by (simp add: Card_cmp_def index_def CARD_VALUE_ORDER_def)

text \<open>
  Claim C7 says that \<^verbatim>\<open>==\<close> on two cards is false, and no error, whenever a field differs.
  On the ace of hearts and the ace of spades the suits differ and \<^verbatim>\<open>==\<close>, which is answered
  by \<^verbatim>\<open>__cmp__\<close>, raises \<^verbatim>\<open>ValueError\<close>.
\<close>

theorem Card_eq_other_suit_raises:
  "suit \<lparr>suit = CHR ''h'', card_value = CHR ''a''\<rparr> \<noteq> suit \<lparr>suit = CHR ''s'', card_value = CHR ''a''\<rparr> \<and>
   Card_eq \<lparr>suit = CHR ''h'', card_value = CHR ''a''\<rparr> \<lparr>suit = CHR ''s'', card_value = CHR ''a''\<rparr> \<noteq> Inr False \<and>
   Card_eq \<lparr>suit = CHR ''h'', card_value = CHR ''a''\<rparr> \<lparr>suit = CHR ''s'', card_value = CHR ''a''\<rparr> =
     Inl (ValueError ''Comparing different cards.'')"
  by (simp add: Card_eq_def Card_cmp_def)

text \<open>
  Claim C7 as amended. When the suits of two cards differ, \<^verbatim>\<open>==\<close> raises the
  \<^verbatim>\<open>ValueError\<close> of \<^verbatim>\<open>__cmp__\<close>; two cards with the same value and suit are equal; and a
  hash set takes two cards for the same element exactly when value and suit both match.
\<close>

theorem Card_equality:
  "(suit a \<noteq> suit b \<longrightarrow> Card_eq a b = Inl (ValueError ''Comparing different cards.'')) \<and>
   (valid_card a \<and> card_value a = card_value b \<and> suit a = suit b \<longrightarrow> Card_eq a b = Inr True) \<and>
   (valid_card a \<longrightarrow> (same_key a b \<longleftrightarrow> card_value a = card_value b \<and> suit a = suit b))"
  by (auto simp: Card_eq_def Card_cmp_other_suit Card_cmp_same_suit same_key_iff)

theorem Card_equality_witness:
  "Card_eq \<lparr>suit = CHR ''h'', card_value = CHR ''a''\<rparr> \<lparr>suit = CHR ''s'', card_value = CHR ''2''\<rparr> =
     Inl (ValueError ''Comparing different cards.'') \<and>
   Card_eq \<lparr>suit = CHR ''h'', card_value = CHR ''a''\<rparr> \<lparr>suit = CHR ''h'', card_value = CHR ''a''\<rparr> = Inr True \<and>
   \<not> same_key \<lparr>suit = CHR ''h'', card_value = CHR ''a''\<rparr> \<lparr>suit = CHR ''h'', card_value = CHR ''2''\<rparr>"
proof -
  have v: "valid_card \<lparr>suit = CHR ''h'', card_value = CHR ''a''\<rparr>"
    by (simp add: valid_card_def SUITS_def CARD_VALUE_ORDER_def)
  show ?thesis
    using v
      Card_equality [of "\<lparr>suit = CHR ''h'', card_value = CHR ''a''\<rparr>" "\<lparr>suit = CHR ''s'', card_value = CHR ''2''\<rparr>"]
      Card_equality [of "\<lparr>suit = CHR ''h'', card_value = CHR ''a''\<rparr>" "\<lparr>suit = CHR ''h'', card_value = CHR ''a''\<rparr>"]
      Card_equality [of "\<lparr>suit = CHR ''h'', card_value = CHR ''a''\<rparr>" "\<lparr>suit = CHR ''h'', card_value = CHR ''2''\<rparr>"]
    by simp
qed

subsection \<open>Classification\<close>

lemma same_suit_total: "cards h \<noteq> [] \<Longrightarrow> \<exists>b. same_suit h = Inr b"
  by (cases "cards h") (simp_all add: same_suit_def)

lemma sort_by_value_valid:
  "\<forall>c \<in> set (cards h). valid_card c \<Longrightarrow>
   sort_by_value h =
     Inr (sort_key (\<lambda>x. the (str_index CARD_VALUE_ORDER x)) (map card_value (cards h)))"
  by (auto simp: sort_by_value_def Let_def str_index_None_iff valid_card_def)

lemma straight_total: "\<forall>c \<in> set (cards h). valid_card c \<Longrightarrow> \<exists>b. straight h = Inr b"
  by (simp add: straight_def sort_by_value_valid)

lemma sort_key_Nil_iff: "sort_key f xs = [] \<longleftrightarrow> xs = []"
  by (metis length_0_conv length_sort)

lemma max_values_valid: "valid_hand h \<Longrightarrow> max_values h = Inr None"
proof -
  assume v: "valid_hand h"
  then have "cards h \<noteq> []"
    by (auto simp: valid_hand_def)
  then show ?thesis
    using v by (simp add: max_values_def sort_by_value_valid valid_hand_def sort_key_Nil_iff)
qed

text \<open>A predicate of the classification either says \<^verbatim>\<open>False\<close> or gives a code from 1 to 9.\<close>

lemma and_code_cases: "and_code b n = PyFalse \<or> and_code b n = Code n"
  by (simp add: and_code_def)

lemma first_handtype_range:
  assumes "\<forall>p \<in> set ps. \<exists>t. p h = Inr t \<and> (t = PyFalse \<or> (\<exists>n. t = Code n \<and> 1 \<le> n \<and> n \<le> 10))"
  shows "\<exists>n. first_handtype ps h = Inr n \<and> 1 \<le> n \<and> n \<le> 10"
  using assms
proof (induction ps)
  case Nil
  then show ?case by simp
next
  case (Cons p ps)
  then obtain t where t: "p h = Inr t" "t = PyFalse \<or> (\<exists>n. t = Code n \<and> 1 \<le> n \<and> n \<le> 10)"
    by auto
  from t(2) show ?case
  proof
    assume "t = PyFalse"
    with t(1) Cons show ?thesis by simp
  next
    assume "\<exists>n. t = Code n \<and> 1 \<le> n \<and> n \<le> 10"
    with t(1) show ?thesis by auto
  qed
qed

lemma predicates_range:
  assumes "valid_hand h"
  shows "\<forall>p \<in> set [is_royal_flush, is_straight_flush, is_poker, is_full, is_flush,
                     is_straight, is_set, is_two_pair, is_pair].
           \<exists>t. p h = Inr t \<and> (t = PyFalse \<or> (\<exists>n. t = Code n \<and> 1 \<le> n \<and> n \<le> 10))"
proof -
  from assms have ne: "cards h \<noteq> []" and v: "\<forall>c \<in> set (cards h). valid_card c"
    by (auto simp: valid_hand_def)
  obtain ss where ss: "same_suit h = Inr ss"
    using same_suit_total [OF ne] by blast
  obtain st where st: "straight h = Inr st"
    using straight_total [OF v] by blast
  have "\<exists>t. is_royal_flush h = Inr t \<and> (t = PyFalse \<or> (\<exists>n. t = Code n \<and> 1 \<le> n \<and> n \<le> 10))"
    by (simp add: is_royal_flush_def ss and_code_def)
  moreover have "\<exists>t. is_straight_flush h = Inr t \<and> (t = PyFalse \<or> (\<exists>n. t = Code n \<and> 1 \<le> n \<and> n \<le> 10))"
    by (simp add: is_straight_flush_def ss st and_code_def)
  moreover have "\<exists>t. is_poker h = Inr t \<and> (t = PyFalse \<or> (\<exists>n. t = Code n \<and> 1 \<le> n \<and> n \<le> 10))"
    by (simp add: is_poker_def and_code_def)
  moreover have "\<exists>t. is_full h = Inr t \<and> (t = PyFalse \<or> (\<exists>n. t = Code n \<and> 1 \<le> n \<and> n \<le> 10))"
    by (simp add: is_full_def and_code_def)
  moreover have "\<exists>t. is_flush h = Inr t \<and> (t = PyFalse \<or> (\<exists>n. t = Code n \<and> 1 \<le> n \<and> n \<le> 10))"
    by (simp add: is_flush_def ss and_code_def)
  moreover have "\<exists>t. is_straight h = Inr t \<and> (t = PyFalse \<or> (\<exists>n. t = Code n \<and> 1 \<le> n \<and> n \<le> 10))"
    by (simp add: is_straight_def st and_code_def)
  moreover have "\<exists>t. is_set h = Inr t \<and> (t = PyFalse \<or> (\<exists>n. t = Code n \<and> 1 \<le> n \<and> n \<le> 10))"
    by (simp add: is_set_def and_code_def)
  moreover have "\<exists>t. is_two_pair h = Inr t \<and> (t = PyFalse \<or> (\<exists>n. t = Code n \<and> 1 \<le> n \<and> n \<le> 10))"
    by (simp add: is_two_pair_def and_code_def)
  moreover have "\<exists>t. is_pair h = Inr t \<and> (t = PyFalse \<or> (\<exists>n. t = Code n \<and> 1 \<le> n \<and> n \<le> 10))"
    by (simp add: is_pair_def and_code_def)
  ultimately show ?thesis by simp
qed

lemma classify_hand_range:
  "valid_hand h \<Longrightarrow> \<exists>n. classify_hand h = Inr n \<and> 1 \<le> n \<and> n \<le> 10"
  unfolding classify_hand_def
  by (rule first_handtype_range) (rule predicates_range)

text \<open>The counts of a hand whose five values are all different.\<close>

lemma dict_get_absent: "k \<notin> fst ` set d \<Longrightarrow> dict_get d k dflt = dflt"
proof -
  assume "k \<notin> fst ` set d"
  then have "map_of d k = None"
    by (simp add: map_of_eq_None_iff)
  then show ?thesis
    by (simp add: dict_get_def)
qed

lemma dict_set_absent: "k \<notin> fst ` set d \<Longrightarrow> dict_set d k v = d @ [(k, v)]"
  by (induction d) auto

lemma count_fold_distinct:
  "distinct (map card_value cs) \<Longrightarrow> card_value ` set cs \<inter> fst ` set d = {} \<Longrightarrow>
   fold (\<lambda>c cnt. dict_set cnt (card_value c) (dict_get cnt (card_value c) 0 + 1)) cs d =
     d @ map (\<lambda>c. (card_value c, 1::int)) cs"
proof (induction cs arbitrary: d)
  case Nil
  then show ?case by simp
next
  case (Cons c cs)
  from Cons.prems have absent: "card_value c \<notin> fst ` set d"
    by auto
  have step: "dict_set d (card_value c) (dict_get d (card_value c) 0 + 1) = d @ [(card_value c, 1)]"
    by (simp add: dict_get_absent [OF absent] dict_set_absent [OF absent])
  have "card_value ` set cs \<inter> fst ` set (d @ [(card_value c, 1)]) = {}"
    using Cons.prems by auto
  with Cons.prems Cons.IH [of "d @ [(card_value c, 1)]"] show ?case
    by (simp add: step)
qed

lemma sorted_counts_distinct:
  assumes "distinct (map card_value (cards h))"
  shows "sorted_counts h = replicate (length (cards h)) 1"
proof -
  have "count h = map (\<lambda>c. (card_value c, 1)) (cards h)"
    using count_fold_distinct [OF assms, of "[]"] by (simp add: count_def)
  then have "map snd (count h) = replicate (length (cards h)) 1"
    by (simp add: comp_def map_replicate_const)
  moreover have "sort (replicate n (1::int)) = replicate n 1" for n
    by (rule sort_key_id_if_sorted) simp
  ultimately show ?thesis
    by (simp add: sorted_counts_def)
qed

text \<open>The hand with the values t, j, q, k, a.\<close>

lemma sort_ace_high:
  assumes "mset vs = mset ''tjqka''"
  shows "sort_key (\<lambda>x. the (str_index CARD_VALUE_ORDER x)) vs = ''atjqk''"
proof (rule sort_key_inj_key_eq)
  show "mset vs = mset ''atjqk''"
    using assms by (simp add: ac_simps)
  have "set vs = set ''tjqka''"
    using assms by (rule mset_eq_setD)
  then show "inj_on (\<lambda>x. the (str_index CARD_VALUE_ORDER x)) (set vs)"
    by (simp add: CARD_VALUE_ORDER_def inj_on_def)
  show "sorted (map (\<lambda>x. the (str_index CARD_VALUE_ORDER x)) ''atjqk'')"
    by (simp add: CARD_VALUE_ORDER_def)
qed

lemma not_sublist_ace_high: "\<not> sublist ''atjqk'' CARD_VALUE_ORDER"
  by (simp add: CARD_VALUE_ORDER_def sublist_Cons_right)

lemma same_suit_mixed:
  assumes "c \<in> set (cards h)" "d \<in> set (cards h)" "suit c \<noteq> suit d"
  shows "same_suit h = Inr False"
proof (cases "cards h")
  case Nil
  with assms show ?thesis by simp
next
  case (Cons head rest)
  have "\<not> (\<forall>x \<in> set (cards h). suit x = suit head)"
    using assms by metis
  then have "\<not> list_all (\<lambda>x. suit x = suit head) (cards h)"
    by (simp add: list_all_iff)
  with Cons show ?thesis
    by (simp add: same_suit_def)
qed

lemma classify_ace_high:
  assumes v: "valid_hand h"
    and vs: "mset (map card_value (cards h)) = mset ''tjqka''"
    and mixed: "c \<in> set (cards h)" "d \<in> set (cards h)" "suit c \<noteq> suit d"
  shows "sort_by_value h = Inr ''atjqk''" and "is_straight h = Inr PyFalse"
    and "classify_hand h = Inr 10"
proof -
  from v have valid: "\<forall>c \<in> set (cards h). valid_card c" and len: "length (cards h) = 5"
    by (auto simp: valid_hand_def)
  show sorted: "sort_by_value h = Inr ''atjqk''"
    by (simp add: sort_by_value_valid [OF valid] sort_ace_high [OF vs])
  have st: "straight h = Inr False"
    using not_sublist_ace_high by (simp add: straight_def sorted)
  have ss: "same_suit h = Inr False"
    using mixed by (rule same_suit_mixed)
  have "distinct (map card_value (cards h))"
    using mset_eq_imp_distinct_iff [OF vs] by simp
  then have "sorted_counts h = replicate 5 1"
    using sorted_counts_distinct [of h] len by simp
  then have counts: "sorted_counts h = [1, 1, 1, 1, 1]"
    by (simp add: numeral_eq_Suc)
  show "is_straight h = Inr PyFalse"
    by (simp add: is_straight_def st and_code_def)
  show "classify_hand h = Inr 10"
    by (simp add: classify_hand_def is_royal_flush_def is_straight_flush_def is_poker_def
        is_full_def is_flush_def is_straight_def is_set_def is_two_pair_def is_pair_def
        ss st counts and_code_def)
qed

text \<open>
  Claim C1. On every valid hand \<^verbatim>\<open>classify_hand\<close> returns a code from 1 to 10. A hand with
  the values t, j, q, k, a (in any order) that holds two cards of different suits gets the
  code 10 and \<^verbatim>\<open>is_straight\<close> says \<^verbatim>\<open>False\<close>: its values sort to \<^verbatim>\<open>atjqk\<close>, which is no
  substring of \<^verbatim>\<open>a23456789tjqk\<close>.
\<close>

theorem classify_hand_code:
  assumes "valid_hand h"
  shows "(\<exists>n. classify_hand h = Inr n \<and> 1 \<le> n \<and> n \<le> 10) \<and>
         (mset (map card_value (cards h)) = mset ''tjqka'' \<and>
          (\<exists>c \<in> set (cards h). \<exists>d \<in> set (cards h). suit c \<noteq> suit d) \<longrightarrow>
            classify_hand h = Inr 10 \<and> is_straight h = Inr PyFalse \<and>
            sort_by_value h = Inr ''atjqk'' \<and> \<not> sublist ''atjqk'' CARD_VALUE_ORDER)"
  using assms classify_hand_range [of h] classify_ace_high [of h] not_sublist_ace_high
  by blast

theorem classify_hand_code_witness:
  "classify_hand \<lparr>cards = [mk_card CHR ''k'' CHR ''h'',
                           mk_card CHR ''a'' CHR ''s'',
                           mk_card CHR ''t'' CHR ''h'',
                           mk_card CHR ''q'' CHR ''d'',
                           mk_card CHR ''j'' CHR ''h'']\<rparr> = Inr 10"
proof -
  let ?h = "\<lparr>cards = [mk_card CHR ''k'' CHR ''h'',
                      mk_card CHR ''a'' CHR ''s'',
                      mk_card CHR ''t'' CHR ''h'',
                      mk_card CHR ''q'' CHR ''d'',
                      mk_card CHR ''j'' CHR ''h'']\<rparr>"
  have v: "valid_hand ?h"
    by (simp add: valid_hand_def valid_card_def SUITS_def CARD_VALUE_ORDER_def)
  have m: "mset (map card_value (cards ?h)) = mset ''tjqka''"
    by (simp add: ac_simps)
  have "mk_card CHR ''k'' CHR ''h'' \<in> set (cards ?h)" "mk_card CHR ''a'' CHR ''s'' \<in> set (cards ?h)"
    "suit (mk_card CHR ''k'' CHR ''h'') \<noteq> suit (mk_card CHR ''a'' CHR ''s'')"
    by simp_all
  then have s: "\<exists>c \<in> set (cards ?h). \<exists>d \<in> set (cards ?h). suit c \<noteq> suit d"
    by blast
  from classify_hand_code [OF v] m s show ?thesis
    by blast
qed

text \<open>
  Claim C4. For two valid hands, \<^verbatim>\<open>Hand.__cmp__\<close> returns 1 (self wins) when the code of
  self is strictly lower, -1 (other wins) when it is strictly higher, and 0 when the codes
  are the same and are not 10: nothing but the two codes is looked at.
\<close>

theorem Hand_cmp_by_category:
  assumes "valid_hand a" and "valid_hand b"
  shows "\<exists>ca cb. classify_hand a = Inr ca \<and> classify_hand b = Inr cb \<and>
           (ca < cb \<longrightarrow> Hand_cmp a b = Inr 1) \<and>
           (cb < ca \<longrightarrow> Hand_cmp a b = Inr (- 1)) \<and>
           (ca = cb \<and> ca \<noteq> 10 \<longrightarrow> Hand_cmp a b = Inr 0)"
proof -
  obtain ca where ca: "classify_hand a = Inr ca"
    using classify_hand_range [OF assms(1)] by blast
  obtain cb where cb: "classify_hand b = Inr cb"
    using classify_hand_range [OF assms(2)] by blast
  show ?thesis
    by (simp add: Hand_cmp_def ca cb)
qed

theorem Hand_cmp_by_category_witness:
  "Hand_cmp \<lparr>cards = [mk_card CHR ''t'' CHR ''h'', mk_card CHR ''j'' CHR ''h'',
                       mk_card CHR ''q'' CHR ''h'', mk_card CHR ''k'' CHR ''h'',
                       mk_card CHR ''a'' CHR ''h'']\<rparr>
            \<lparr>cards = [mk_card CHR ''2'' CHR ''h'', mk_card CHR ''2'' CHR ''s'',
                       mk_card CHR ''3'' CHR ''d'', mk_card CHR ''5'' CHR ''c'',
                       mk_card CHR ''7'' CHR ''c'']\<rparr> = Inr 1 \<and>
   Hand_cmp \<lparr>cards = [mk_card CHR ''2'' CHR ''h'', mk_card CHR ''2'' CHR ''s'',
                       mk_card CHR ''3'' CHR ''d'', mk_card CHR ''5'' CHR ''c'',
                       mk_card CHR ''7'' CHR ''c'']\<rparr>
            \<lparr>cards = [mk_card CHR ''t'' CHR ''h'', mk_card CHR ''j'' CHR ''h'',
                       mk_card CHR ''q'' CHR ''h'', mk_card CHR ''k'' CHR ''h'',
                       mk_card CHR ''a'' CHR ''h'']\<rparr> = Inr (- 1) \<and>
   Hand_cmp \<lparr>cards = [mk_card CHR ''2'' CHR ''h'', mk_card CHR ''2'' CHR ''s'',
                       mk_card CHR ''3'' CHR ''d'', mk_card CHR ''5'' CHR ''c'',
                       mk_card CHR ''7'' CHR ''c'']\<rparr>
            \<lparr>cards = [mk_card CHR ''k'' CHR ''h'', mk_card CHR ''k'' CHR ''s'',
                       mk_card CHR ''3'' CHR ''d'', mk_card CHR ''5'' CHR ''c'',
                       mk_card CHR ''7'' CHR ''c'']\<rparr> = Inr 0"
proof -
  let ?r = "\<lparr>cards = [mk_card CHR ''t'' CHR ''h'', mk_card CHR ''j'' CHR ''h'',
                      mk_card CHR ''q'' CHR ''h'', mk_card CHR ''k'' CHR ''h'',
                      mk_card CHR ''a'' CHR ''h'']\<rparr>"
  let ?p = "\<lparr>cards = [mk_card CHR ''2'' CHR ''h'', mk_card CHR ''2'' CHR ''s'',
                      mk_card CHR ''3'' CHR ''d'', mk_card CHR ''5'' CHR ''c'',
                      mk_card CHR ''7'' CHR ''c'']\<rparr>"
  let ?q = "\<lparr>cards = [mk_card CHR ''k'' CHR ''h'', mk_card CHR ''k'' CHR ''s'',
                      mk_card CHR ''3'' CHR ''d'', mk_card CHR ''5'' CHR ''c'',
                      mk_card CHR ''7'' CHR ''c'']\<rparr>"
  have vr: "valid_hand ?r" and vp: "valid_hand ?p" and vq: "valid_hand ?q"
    by (simp_all add: valid_hand_def valid_card_def SUITS_def CARD_VALUE_ORDER_def)
  have cr: "classify_hand ?r = Inr 1"
    by code_simp
  have cp: "classify_hand ?p = Inr 9"
    by code_simp
  have cq: "classify_hand ?q = Inr 9"
    by code_simp
  have "Hand_cmp ?r ?p = Inr 1"
    using Hand_cmp_by_category [OF vr vp] by (simp add: cr cp)
  moreover have "Hand_cmp ?p ?r = Inr (- 1)"
    using Hand_cmp_by_category [OF vp vr] by (simp add: cr cp)
  moreover have "Hand_cmp ?p ?q = Inr 0"
    using Hand_cmp_by_category [OF vp vq] by (simp add: cp cq)
  ultimately show ?thesis
    by blast
qed

text \<open>
  Claim C5. For two valid hands that both have the code 10, \<^verbatim>\<open>Hand.__cmp__\<close> returns 0:
  \<^verbatim>\<open>_max_values\<close> returns \<^verbatim>\<open>None\<close> for both, the test \<^verbatim>\<open>max_ == max_other\<close> is true, and no
  card is compared with another.
\<close>

theorem Hand_cmp_highest_card:
  assumes "valid_hand a" and "valid_hand b"
    and "classify_hand a = Inr 10" and "classify_hand b = Inr 10"
  shows "Hand_cmp a b = Inr 0 \<and> max_values a = Inr None \<and> max_values b = Inr None"
  using assms by (simp add: Hand_cmp_def max_values_valid)


theorem Hand_cmp_highest_card_witness:
  "Hand_cmp \<lparr>cards = [mk_card CHR ''3'' CHR ''d'', mk_card CHR ''5'' CHR ''s'',
                       mk_card CHR ''2'' CHR ''h'', mk_card CHR ''q'' CHR ''d'',
                       mk_card CHR ''t'' CHR ''d'']\<rparr>
            \<lparr>cards = [mk_card CHR ''t'' CHR ''h'', mk_card CHR ''j'' CHR ''h'',
                       mk_card CHR ''q'' CHR ''h'', mk_card CHR ''k'' CHR ''h'',
                       mk_card CHR ''a'' CHR ''s'']\<rparr> = Inr 0"
proof -
  let ?a = "\<lparr>cards = [mk_card CHR ''3'' CHR ''d'', mk_card CHR ''5'' CHR ''s'',
                      mk_card CHR ''2'' CHR ''h'', mk_card CHR ''q'' CHR ''d'',
                      mk_card CHR ''t'' CHR ''d'']\<rparr>"
  let ?b = "\<lparr>cards = [mk_card CHR ''t'' CHR ''h'', mk_card CHR ''j'' CHR ''h'',
                      mk_card CHR ''q'' CHR ''h'', mk_card CHR ''k'' CHR ''h'',
                      mk_card CHR ''a'' CHR ''s'']\<rparr>"
  have va: "valid_hand ?a" and vb: "valid_hand ?b"
    by (simp_all add: valid_hand_def valid_card_def SUITS_def CARD_VALUE_ORDER_def)
  have ca: "classify_hand ?a = Inr 10"
    by code_simp
  have cb: "classify_hand ?b = Inr 10"
    by code_simp
  from Hand_cmp_highest_card [OF va vb ca cb] show ?thesis
    by simp
qed

subsection \<open>Sets, iteration order and combinations\<close>

text \<open>On valid cards the sets of the model are the sets of HOL.\<close>

lemma set_contains_iff: "\<forall>k \<in> set s. valid_card k \<Longrightarrow> set_contains s c \<longleftrightarrow> c \<in> set s"
  by (auto simp: set_contains_def same_key_iff)

lemma set_add_set: "\<forall>k \<in> set s. valid_card k \<Longrightarrow> set (set_add s c) = insert c (set s)"
  by (auto simp: set_add_def set_contains_iff)

lemma set_add_distinct:
  "\<forall>k \<in> set s. valid_card k \<Longrightarrow> distinct s \<Longrightarrow> distinct (set_add s c)"
  by (auto simp: set_add_def set_contains_iff)

lemma set_update_Cons: "set_update s (x # xs) = set_update (set_add s x) xs"
  by (simp add: set_update_def)

lemma set_update_set:
  "\<forall>k \<in> set s. valid_card k \<Longrightarrow> \<forall>k \<in> set xs. valid_card k \<Longrightarrow>
   set (set_update s xs) = set s \<union> set xs"
proof (induction xs arbitrary: s)
  case Nil
  then show ?case by (simp add: set_update_def)
next
  case (Cons x xs)
  have "\<forall>k \<in> set (set_add s x). valid_card k"
    using Cons.prems by (simp add: set_add_set)
  with Cons show ?case
    by (simp add: set_update_Cons set_add_set)
qed

lemma set_update_distinct:
  "\<forall>k \<in> set s. valid_card k \<Longrightarrow> \<forall>k \<in> set xs. valid_card k \<Longrightarrow> distinct s \<Longrightarrow>
   distinct (set_update s xs)"
proof (induction xs arbitrary: s)
  case Nil
  then show ?case by (simp add: set_update_def)
next
  case (Cons x xs)
  have "\<forall>k \<in> set (set_add s x). valid_card k"
    using Cons.prems by (simp add: set_add_set)
  moreover have "distinct (set_add s x)"
    using Cons.prems by (simp add: set_add_distinct)
  ultimately show ?case
    using Cons by (simp add: set_update_Cons)
qed

lemma set_update_length: "length (set_update s xs) \<le> length s + length xs"
proof (induction xs arbitrary: s)
  case Nil
  then show ?case by (simp add: set_update_def)
next
  case (Cons x xs)
  have "length (set_add s x) \<le> Suc (length s)"
    by (simp add: set_add_def)
  with Cons [of "set_add s x"] show ?case
    by (simp add: set_update_Cons)
qed

lemma py_set_set: "\<forall>k \<in> set xs. valid_card k \<Longrightarrow> set (py_set xs) = set xs"
  by (simp add: py_set_def set_update_set)

lemma py_set_distinct: "\<forall>k \<in> set xs. valid_card k \<Longrightarrow> distinct (py_set xs)"
  by (simp add: py_set_def set_update_distinct)

lemma py_set_length: "\<forall>k \<in> set xs. valid_card k \<Longrightarrow> length (py_set xs) = card (set xs)"
  using distinct_card [OF py_set_distinct, of xs] by (simp add: py_set_set)

lemma set_diff_set:
  "\<forall>k \<in> set t. valid_card k \<Longrightarrow> set (set_diff s t) = set s - set t"
  by (auto simp: set_diff_def set_contains_iff)

lemma set_diff_distinct: "distinct s \<Longrightarrow> distinct (set_diff s t)"
  by (simp add: set_diff_def)

text \<open>What the iteration order preserves.\<close>

lemma iteration_order_mset: "iteration_order iter \<Longrightarrow> mset (iter s) = mset s"
  by (simp add: iteration_order_def)

lemma iteration_order_set: "iteration_order iter \<Longrightarrow> set (iter s) = set s"
  by (metis iteration_order_mset set_mset_mset)

lemma iteration_order_length: "iteration_order iter \<Longrightarrow> length (iter s) = length s"
  by (metis iteration_order_mset size_mset)

lemma iteration_order_distinct: "iteration_order iter \<Longrightarrow> distinct (iter s) = distinct s"
  by (metis iteration_order_mset mset_eq_imp_distinct_iff)

text \<open>Combinations.\<close>

lemma length_combinations: "length (combinations xs r) = length xs choose r"
  by (induction xs r rule: combinations.induct) simp_all

lemma combinations_elem_length: "t \<in> set (combinations xs r) \<Longrightarrow> length t = r"
  by (induction xs r arbitrary: t rule: combinations.induct) auto

lemma combinations_elem_subset: "t \<in> set (combinations xs r) \<Longrightarrow> set t \<subseteq> set xs"
proof (induction xs r arbitrary: t rule: combinations.induct)
  case (3 x xs r)
  then consider t' where "t = x # t'" "t' \<in> set (combinations xs r)"
    | "t \<in> set (combinations xs (Suc r))"
    by auto
  then show ?case
  proof cases
    case 1
    with "3.IH"(1) [of t'] show ?thesis by auto
  next
    case 2
    with "3.IH"(2) [of t] show ?thesis by auto
  qed
qed simp_all

lemma combinations_elem_distinct:
  "distinct xs \<Longrightarrow> t \<in> set (combinations xs r) \<Longrightarrow> distinct t"
proof (induction xs r arbitrary: t rule: combinations.induct)
  case (3 x xs r)
  from "3.prems" consider t' where "t = x # t'" "t' \<in> set (combinations xs r)"
    | "t \<in> set (combinations xs (Suc r))"
    by auto
  then show ?case
  proof cases
    case 1
    with "3.IH"(1) [of t'] "3.prems"(1) combinations_elem_subset [of t' xs r] show ?thesis
      by auto
  next
    case 2
    with "3.IH"(2) [of t] "3.prems"(1) show ?thesis by auto
  qed
qed simp_all




subsection \<open>The search\<close>

text \<open>On valid hands \<^verbatim>\<open>>\<close> compares the two codes.\<close>

lemma Hand_gt_valid:
  assumes "valid_hand a" and "valid_hand b"
  shows "\<exists>ca cb. classify_hand a = Inr ca \<and> classify_hand b = Inr cb \<and>
           Hand_gt a b = Inr (ca < cb)"
proof -
  obtain ca where ca: "classify_hand a = Inr ca"
    using classify_hand_range [OF assms(1)] by blast
  obtain cb where cb: "classify_hand b = Inr cb"
    using classify_hand_range [OF assms(2)] by blast
  have "Hand_gt a b = Inr (ca < cb)"
    by (simp add: Hand_gt_def Hand_cmp_def ca cb max_values_valid assms)
  with ca cb show ?thesis by blast
qed

lemma Hand_init_Inr: "Hand_init cs = Inr x \<longleftrightarrow> length cs = 5 \<and> x = \<lparr>cards = cs\<rparr>"
  by (auto simp: Hand_init_def)

lemma Hand_init_Inl:
  "Hand_init cs = Inl e \<longleftrightarrow> length cs \<noteq> 5 \<and> e = ValueError ''A hand has 5 cards.''"
  by (auto simp: Hand_init_def)

text \<open>The candidates of the search.\<close>

lemma candidates_iff:
  "c \<in> set (candidates iter h deck) \<longleftrightarrow>
     (\<exists>num t. 1 \<le> num \<and> num \<le> 5 \<and> t \<in> set (combinations (iter (py_set (cards h))) num) \<and>
        c = candidate iter (py_set (cards h)) deck num t)"
  by (auto simp: candidates_def Let_def)

lemma candidate_set:
  assumes "iteration_order iter" and "\<forall>k \<in> set hs. valid_card k"
    and "\<forall>k \<in> set deck. valid_card k" and "\<forall>k \<in> set t. valid_card k"
  shows "set (candidate iter hs deck num t) = (set hs - set t) \<union> set (take num deck)"
proof -
  have "\<forall>k \<in> set (set_diff hs (py_set t)). valid_card k"
    using assms(2) by (simp add: set_diff_def)
  moreover have "\<forall>k \<in> set (take num deck). valid_card k"
    using assms(3) by (meson in_set_takeD)
  ultimately have "set (set_update (set_diff hs (py_set t)) (take num deck)) =
      set (set_diff hs (py_set t)) \<union> set (take num deck)"
    by (rule set_update_set)
  moreover have "set (set_diff hs (py_set t)) = set hs - set t"
    using assms(4) by (simp add: set_diff_set py_set_set)
  ultimately show ?thesis
    by (simp add: candidate_def iteration_order_set [OF assms(1)])
qed

lemma candidate_length:
  assumes "iteration_order iter" and "\<forall>k \<in> set hs. valid_card k" and "distinct hs"
    and "set t \<subseteq> set hs" and "distinct t"
  shows "length (candidate iter hs deck num t) \<le> length hs - length t + min (length deck) num"
proof -
  have vt: "\<forall>k \<in> set t. valid_card k"
    using assms(2,4) by blast
  have "distinct (set_diff hs (py_set t))"
    using assms(3) by (rule set_diff_distinct)
  then have "length (set_diff hs (py_set t)) = card (set hs - set t)"
    using distinct_card [of "set_diff hs (py_set t)"] vt by (simp add: set_diff_set py_set_set)
  also have "\<dots> = card (set hs) - card (set t)"
    using assms(4) by (simp add: card_Diff_subset)
  also have "\<dots> = length hs - length t"
    using assms(3,5) by (simp add: distinct_card)
  finally have "length (set_diff hs (py_set t)) = length hs - length t" .
  with set_update_length [of "set_diff hs (py_set t)" "take num deck"] show ?thesis
    by (simp add: candidate_def iteration_order_length [OF assms(1)])
qed

text \<open>The pool of the combinations and the hands the generator yields.\<close>

lemma pool_props:
  assumes "iteration_order iter" and "\<forall>k \<in> set cs. valid_card k"
  shows "set (iter (py_set cs)) = set cs" and "distinct (iter (py_set cs))"
    and "length (iter (py_set cs)) = card (set cs)"
  using assms
  by (simp_all add: iteration_order_set iteration_order_distinct iteration_order_length
      py_set_set py_set_distinct py_set_length)

lemma candidates_valid:
  assumes "iteration_order iter" and "\<forall>k \<in> set (cards h). valid_card k"
    and "\<forall>k \<in> set deck. valid_card k" and "c \<in> set (candidates iter h deck)"
  shows "\<forall>k \<in> set c. valid_card k"
proof -
  from assms(4) obtain num t where t: "t \<in> set (combinations (iter (py_set (cards h))) num)"
    and c: "c = candidate iter (py_set (cards h)) deck num t"
    by (auto simp: candidates_iff)
  have sub: "set t \<subseteq> set (cards h)"
    using combinations_elem_subset [OF t] pool_props(1) [OF assms(1,2)] by simp
  have "set c = (set (py_set (cards h)) - set t) \<union> set (take num deck)"
    unfolding c using assms sub by (intro candidate_set) (auto simp: py_set_set)
  then have "set c \<subseteq> set (cards h) \<union> set deck"
    using assms(2) by (auto simp: py_set_set dest: in_set_takeD)
  with assms(2,3) show ?thesis by blast
qed

lemma search_space_valid:
  assumes "iteration_order iter" and "\<forall>k \<in> set (cards h). valid_card k"
    and "\<forall>k \<in> set deck. valid_card k" and "Inr x \<in> set (search_space iter h deck)"
  shows "valid_hand x"
proof -
  from assms(4) obtain c where c: "c \<in> set (candidates iter h deck)" "Hand_init c = Inr x"
    by (auto simp: search_space_def)
  with candidates_valid [OF assms(1-3) c(1)] show ?thesis
    by (auto simp: Hand_init_Inr valid_hand_def)
qed

lemma search_space_Inl:
  "Inl e \<in> set (search_space iter h deck) \<Longrightarrow> e = ValueError ''A hand has 5 cards.''"
  by (auto simp: search_space_def Hand_init_def split: if_splits)


text \<open>The loop of the search.\<close>

lemma search_loop_best:
  assumes "search_loop w rs = Inr r" and "valid_hand w"
    and "\<forall>x. Inr x \<in> set rs \<longrightarrow> valid_hand x"
  shows "\<exists>cr cw. classify_hand r = Inr cr \<and> classify_hand w = Inr cw \<and> cr \<le> cw \<and>
           (r = w \<or> (Inr r \<in> set rs \<and> cr < cw)) \<and>
           (\<forall>x. Inr x \<in> set rs \<longrightarrow> (\<exists>cx. classify_hand x = Inr cx \<and> cr \<le> cx))"
  using assms
proof (induction w rs rule: search_loop.induct)
  case (1 w)
  then show ?case
    using classify_hand_range [of w] by auto
next
  case (2 w e rest)
  then show ?case by simp
next
  case (3 w new_hand rest)
  have vn: "valid_hand new_hand"
    using "3.prems"(3) by simp
  obtain cn cw where cn: "classify_hand new_hand = Inr cn" and cw: "classify_hand w = Inr cw"
    and gt: "Hand_gt new_hand w = Inr (cn < cw)"
    using Hand_gt_valid [OF vn "3.prems"(2)] by blast
  let ?w' = "if cn < cw then new_hand else w"
  have loop: "search_loop ?w' rest = Inr r"
    using "3.prems"(1) by (simp add: gt)
  have "valid_hand ?w'"
    using vn "3.prems"(2) by simp
  with "3.IH" [of "cn < cw"] loop "3.prems"(3) gt
  obtain cr cw' where cr: "classify_hand r = Inr cr" and cw': "classify_hand ?w' = Inr cw'"
    and le: "cr \<le> cw'" and strict: "r = ?w' \<or> (Inr r \<in> set rest \<and> cr < cw')"
    and rest: "\<forall>x. Inr x \<in> set rest \<longrightarrow> (\<exists>cx. classify_hand x = Inr cx \<and> cr \<le> cx)"
    by auto
  show ?case
  proof (cases "cn < cw")
    case True
    with cw' cn have "cw' = cn" by simp
    with True le strict cr cw cn rest show ?thesis by auto
  next
    case False
    with cw' cw have "cw' = cw" by simp
    with False le strict cr cw cn rest show ?thesis by auto
  qed
qed


lemma search_loop_raises:
  assumes "Inl e \<in> set rs" and "\<forall>e'. Inl e' \<in> set rs \<longrightarrow> e' = e" and "valid_hand w"
    and "\<forall>x. Inr x \<in> set rs \<longrightarrow> valid_hand x"
  shows "search_loop w rs = Inl e"
  using assms
proof (induction w rs rule: search_loop.induct)
  case (1 w)
  then show ?case by simp
next
  case (2 w e' rest)
  then show ?case by simp
next
  case (3 w new_hand rest)
  have vn: "valid_hand new_hand"
    using "3.prems"(4) by simp
  obtain cn cw :: int where gt: "Hand_gt new_hand w = Inr (cn < cw)"
    using Hand_gt_valid [OF vn "3.prems"(3)] by blast
  let ?w' = "if cn < cw then new_hand else w"
  have a: "Inl e \<in> set rest"
    using "3.prems"(1) by simp
  have b: "\<forall>e'. Inl e' \<in> set rest \<longrightarrow> e' = e"
    using "3.prems"(2) by (meson list.set_intros(2))
  have c: "valid_hand ?w'"
    using vn "3.prems"(3) by simp
  have d: "\<forall>x. Inr x \<in> set rest \<longrightarrow> valid_hand x"
    using "3.prems"(4) by (meson list.set_intros(2))
  have "search_loop ?w' rest = Inl e"
    using a b c d by (rule "3.IH")
  then show ?case
    by (simp add: gt)
qed

text \<open>
  Claim C2. When \<^verbatim>\<open>search\<close> returns a hand, its code is not greater than the code of the
  starting hand. The returned hand is the starting hand unless it is one of the hands of
  the search space with a strictly lower code, and no hand of the search space has a
  lower code than the returned one.
\<close>

theorem search_never_worse:
  assumes "valid_hand h" and "\<forall>c \<in> set deck. valid_card c" and "iteration_order iter"
    and "search iter h deck = Inr w"
  shows "\<exists>cw ch. classify_hand w = Inr cw \<and> classify_hand h = Inr ch \<and> cw \<le> ch \<and>
           (w = h \<or> (Inr w \<in> set (search_space iter h deck) \<and> cw < ch)) \<and>
           (\<forall>x. Inr x \<in> set (search_space iter h deck) \<longrightarrow>
                (\<exists>cx. classify_hand x = Inr cx \<and> cw \<le> cx))"
proof -
  have valid: "\<forall>k \<in> set (cards h). valid_card k"
    using assms(1) by (simp add: valid_hand_def)
  have "\<forall>x. Inr x \<in> set (search_space iter h deck) \<longrightarrow> valid_hand x"
    using search_space_valid [OF assms(3) valid assms(2)] by blast
  moreover have "search_loop h (search_space iter h deck) = Inr w"
    using assms(4) by (simp add: search_def)
  ultimately show ?thesis
    using assms(1) by (intro search_loop_best)
qed

theorem search_never_worse_witness:
  "search (\<lambda>s. s)
     \<lparr>cards = [mk_card CHR ''t'' CHR ''h'', mk_card CHR ''j'' CHR ''h'',
                mk_card CHR ''q'' CHR ''c'', mk_card CHR ''q'' CHR ''d'',
                mk_card CHR ''q'' CHR ''s'']\<rparr>
     [mk_card CHR ''q'' CHR ''h'', mk_card CHR ''k'' CHR ''h'', mk_card CHR ''a'' CHR ''h'',
      mk_card CHR ''2'' CHR ''s'', mk_card CHR ''6'' CHR ''s''] =
   Inr \<lparr>cards = [mk_card CHR ''t'' CHR ''h'', mk_card CHR ''j'' CHR ''h'',
                   mk_card CHR ''q'' CHR ''h'', mk_card CHR ''k'' CHR ''h'',
                   mk_card CHR ''a'' CHR ''h'']\<rparr> \<and>
   (\<exists>cw ch.
      classify_hand \<lparr>cards = [mk_card CHR ''t'' CHR ''h'', mk_card CHR ''j'' CHR ''h'',
                               mk_card CHR ''q'' CHR ''h'', mk_card CHR ''k'' CHR ''h'',
                               mk_card CHR ''a'' CHR ''h'']\<rparr> = Inr cw \<and>
      classify_hand \<lparr>cards = [mk_card CHR ''t'' CHR ''h'', mk_card CHR ''j'' CHR ''h'',
                               mk_card CHR ''q'' CHR ''c'', mk_card CHR ''q'' CHR ''d'',
                               mk_card CHR ''q'' CHR ''s'']\<rparr> = Inr ch \<and> cw \<le> ch)"
proof -
  let ?h = "\<lparr>cards = [mk_card CHR ''t'' CHR ''h'', mk_card CHR ''j'' CHR ''h'',
                      mk_card CHR ''q'' CHR ''c'', mk_card CHR ''q'' CHR ''d'',
                      mk_card CHR ''q'' CHR ''s'']\<rparr>"
  let ?deck = "[mk_card CHR ''q'' CHR ''h'', mk_card CHR ''k'' CHR ''h'',
                mk_card CHR ''a'' CHR ''h'', mk_card CHR ''2'' CHR ''s'',
                mk_card CHR ''6'' CHR ''s'']"
  let ?w = "\<lparr>cards = [mk_card CHR ''t'' CHR ''h'', mk_card CHR ''j'' CHR ''h'',
                      mk_card CHR ''q'' CHR ''h'', mk_card CHR ''k'' CHR ''h'',
                      mk_card CHR ''a'' CHR ''h'']\<rparr>"
  have vh: "valid_hand ?h"
    by (simp add: valid_hand_def valid_card_def SUITS_def CARD_VALUE_ORDER_def)
  have vd: "\<forall>c \<in> set ?deck. valid_card c"
    by (simp add: valid_card_def SUITS_def CARD_VALUE_ORDER_def)
  have it: "iteration_order (\<lambda>s. s)"
    by (simp add: iteration_order_def)
  have run: "search (\<lambda>s. s) ?h ?deck = Inr ?w"
    by code_simp
  from search_never_worse [OF vh vd it run] run show ?thesis
    by blast
qed




text \<open>
  Claim C9. When the hand holds five different cards and the deck fewer than five,
  \<^verbatim>\<open>search\<close> raises the \<^verbatim>\<open>ValueError\<close> of the \<^verbatim>\<open>Hand\<close> constructor: the search space has
  a candidate that holds the cards of the deck and nothing else, fewer than five cards.
\<close>

theorem search_short_deck_raises:
  assumes "valid_hand h" and "distinct (cards h)" and "\<forall>c \<in> set deck. valid_card c"
    and "length deck < 5" and "iteration_order iter"
  shows "search iter h deck = Inl (ValueError ''A hand has 5 cards.'') \<and>
         (\<exists>c \<in> set (candidates iter h deck). set c = set deck \<and> length c < 5 \<and>
            Hand_init c = Inl (ValueError ''A hand has 5 cards.''))"
proof -
  let ?hs = "py_set (cards h)"
  let ?pool = "iter ?hs"
  let ?E = "ValueError ''A hand has 5 cards.''"
  have valid: "\<forall>k \<in> set (cards h). valid_card k" and len: "length (cards h) = 5"
    using assms(1) by (simp_all add: valid_hand_def)
  have vhs: "\<forall>k \<in> set ?hs. valid_card k"
    using valid by (simp add: py_set_set)
  note pool = pool_props [OF assms(5) valid]
  have n: "length ?pool = 5"
    using pool(3) distinct_card [OF assms(2)] len by simp
  have lhs: "length ?hs = 5"
    using n by (simp add: iteration_order_length [OF assms(5)])
  have "length (combinations ?pool 5) = 1"
    by (simp add: length_combinations n)
  then obtain t where t: "t \<in> set (combinations ?pool 5)"
    by (cases "combinations ?pool 5") auto
  let ?c = "candidate iter ?hs deck 5 t"
  have sub: "set t \<subseteq> set ?hs"
    using combinations_elem_subset [OF t] by (simp add: iteration_order_set [OF assms(5)])
  have dt: "distinct t"
    using combinations_elem_distinct [OF pool(2) t] .
  have lt: "length t = 5"
    using combinations_elem_length [OF t] .
  have "card (set t) = card (set ?hs)"
    using dt lt lhs py_set_distinct [OF valid] by (simp add: distinct_card)
  with sub have all: "set t = set ?hs"
    by (simp add: card_subset_eq)
  have vt: "\<forall>k \<in> set t. valid_card k"
    using sub vhs by blast
  have "set ?c = (set ?hs - set t) \<union> set (take 5 deck)"
    using assms(5) vhs assms(3) vt by (rule candidate_set)
  then have set_c: "set ?c = set deck"
    using all assms(4) by simp
  have "length ?c \<le> length ?hs - length t + min (length deck) 5"
    using assms(5) vhs py_set_distinct [OF valid] sub dt by (rule candidate_length)
  then have short: "length ?c < 5"
    using lhs lt assms(4) by simp
  then have init: "Hand_init ?c = Inl ?E"
    by (simp add: Hand_init_def)
  have mem: "?c \<in> set (candidates iter h deck)"
    unfolding candidates_iff using t by (intro exI [of _ 5] exI [of _ t]) simp
  then have "Inl ?E \<in> set (search_space iter h deck)"
    using init by (force simp: search_space_def)
  moreover have "\<forall>e'. Inl e' \<in> set (search_space iter h deck) \<longrightarrow> e' = ?E"
    using search_space_Inl by blast
  moreover have "\<forall>x. Inr x \<in> set (search_space iter h deck) \<longrightarrow> valid_hand x"
    using search_space_valid [OF assms(5) valid assms(3)] by blast
  ultimately have "search_loop h (search_space iter h deck) = Inl ?E"
    using assms(1) by (intro search_loop_raises)
  with mem set_c short init show ?thesis
    by (auto simp: search_def)
qed

theorem search_short_deck_raises_witness:
  "search (\<lambda>s. s)
     \<lparr>cards = [mk_card CHR ''3'' CHR ''d'', mk_card CHR ''5'' CHR ''s'',
                mk_card CHR ''2'' CHR ''h'', mk_card CHR ''q'' CHR ''d'',
                mk_card CHR ''t'' CHR ''d'']\<rparr>
     [mk_card CHR ''6'' CHR ''s'', mk_card CHR ''k'' CHR ''h'', mk_card CHR ''9'' CHR ''h'',
      mk_card CHR ''a'' CHR ''d''] = Inl (ValueError ''A hand has 5 cards.'')"
proof -
  let ?h = "\<lparr>cards = [mk_card CHR ''3'' CHR ''d'', mk_card CHR ''5'' CHR ''s'',
                      mk_card CHR ''2'' CHR ''h'', mk_card CHR ''q'' CHR ''d'',
                      mk_card CHR ''t'' CHR ''d'']\<rparr>"
  let ?deck = "[mk_card CHR ''6'' CHR ''s'', mk_card CHR ''k'' CHR ''h'',
                mk_card CHR ''9'' CHR ''h'', mk_card CHR ''a'' CHR ''d'']"
  have vh: "valid_hand ?h"
    by (simp add: valid_hand_def valid_card_def SUITS_def CARD_VALUE_ORDER_def)
  have dh: "distinct (cards ?h)"
    by simp
  have vd: "\<forall>c \<in> set ?deck. valid_card c"
    by (simp add: valid_card_def SUITS_def CARD_VALUE_ORDER_def)
  have ld: "length ?deck < 5"
    by simp
  have it: "iteration_order (\<lambda>s. s)"
    by (simp add: iteration_order_def)
  from search_short_deck_raises [OF vh dh vd ld it] show ?thesis
    by blast
qed

text \<open>
  Claim C10. When two cards of the hand have the same value and suit, every candidate of
  the search space has fewer than five cards, the \<^verbatim>\<open>Hand\<close> constructor raises its
  \<^verbatim>\<open>ValueError\<close> on the first of them, and so does \<^verbatim>\<open>search\<close>.
\<close>

theorem search_duplicate_raises:
  assumes "valid_hand h" and "\<not> distinct (cards h)" and "\<forall>c \<in> set deck. valid_card c"
    and "iteration_order iter"
  shows "search iter h deck = Inl (ValueError ''A hand has 5 cards.'') \<and>
         (\<exists>rest. search_space iter h deck = Inl (ValueError ''A hand has 5 cards.'') # rest) \<and>
         (\<forall>c \<in> set (candidates iter h deck). length c < 5)"
proof -
  let ?hs = "py_set (cards h)"
  let ?pool = "iter ?hs"
  let ?E = "ValueError ''A hand has 5 cards.''"
  have valid: "\<forall>k \<in> set (cards h). valid_card k" and len: "length (cards h) = 5"
    using assms(1) by (simp_all add: valid_hand_def)
  have vhs: "\<forall>k \<in> set ?hs. valid_card k"
    using valid by (simp add: py_set_set)
  note pool = pool_props [OF assms(4) valid]
  have "card (set (cards h)) \<noteq> length (cards h)"
    using assms(2) card_distinct by blast
  with card_length [of "cards h"] len have few: "card (set (cards h)) < 5"
    by simp
  have lhs: "length ?hs = card (set (cards h))"
    using valid by (rule py_set_length)
  have small: "length c < 5" if "c \<in> set (candidates iter h deck)" for c
  proof -
    from that obtain k t where t: "t \<in> set (combinations ?pool k)"
      and c: "c = candidate iter ?hs deck k t"
      by (auto simp: candidates_iff)
    have sub: "set t \<subseteq> set ?hs"
      using combinations_elem_subset [OF t] by (simp add: iteration_order_set [OF assms(4)])
    have dt: "distinct t"
      using combinations_elem_distinct [OF pool(2) t] .
    have "card (set t) \<le> card (set ?hs)"
      using sub by (simp add: card_mono)
    then have "length t \<le> length ?hs"
      using dt py_set_distinct [OF valid] by (simp add: distinct_card)
    moreover have "length c \<le> length ?hs - length t + min (length deck) k"
      unfolding c using assms(4) vhs py_set_distinct [OF valid] sub dt
      by (rule candidate_length)
    moreover have "length t = k"
      using combinations_elem_length [OF t] .
    ultimately have "length c \<le> length ?hs"
      by simp
    with lhs few show ?thesis
      by simp
  qed
  have "cards h \<noteq> []"
    using len by auto
  then have "0 < length ?pool"
    using pool(3) by (simp add: card_gt_0_iff)
  then have "combinations ?pool 1 \<noteq> []"
    using length_combinations [of ?pool 1] by auto
  then obtain t where "t \<in> set (combinations ?pool 1)"
    by (cases "combinations ?pool 1") auto
  then have "candidate iter ?hs deck 1 t \<in> set (candidates iter h deck)"
    by (auto simp: candidates_iff)
  then obtain c cs where cs: "candidates iter h deck = c # cs"
    by (cases "candidates iter h deck") auto
  then have "length c < 5"
    using small [of c] by simp
  then have first: "search_space iter h deck = Inl ?E # map Hand_init cs"
    by (simp add: search_space_def cs Hand_init_def)
  then have "search iter h deck = Inl ?E"
    by (simp add: search_def)
  with first small show ?thesis
    by blast
qed

theorem search_duplicate_raises_witness:
  "search (\<lambda>s. s)
     \<lparr>cards = [mk_card CHR ''3'' CHR ''d'', mk_card CHR ''5'' CHR ''s'',
                mk_card CHR ''3'' CHR ''d'', mk_card CHR ''q'' CHR ''d'',
                mk_card CHR ''t'' CHR ''d'']\<rparr>
     [mk_card CHR ''6'' CHR ''s'', mk_card CHR ''k'' CHR ''h'', mk_card CHR ''9'' CHR ''h'',
      mk_card CHR ''a'' CHR ''d'', mk_card CHR ''q'' CHR ''h''] =
   Inl (ValueError ''A hand has 5 cards.'')"
proof -
  let ?h = "\<lparr>cards = [mk_card CHR ''3'' CHR ''d'', mk_card CHR ''5'' CHR ''s'',
                      mk_card CHR ''3'' CHR ''d'', mk_card CHR ''q'' CHR ''d'',
                      mk_card CHR ''t'' CHR ''d'']\<rparr>"
  let ?deck = "[mk_card CHR ''6'' CHR ''s'', mk_card CHR ''k'' CHR ''h'',
                mk_card CHR ''9'' CHR ''h'', mk_card CHR ''a'' CHR ''d'',
                mk_card CHR ''q'' CHR ''h'']"
  have vh: "valid_hand ?h"
    by (simp add: valid_hand_def valid_card_def SUITS_def CARD_VALUE_ORDER_def)
  have dh: "\<not> distinct (cards ?h)"
    by simp
  have vd: "\<forall>c \<in> set ?deck. valid_card c"
    by (simp add: valid_card_def SUITS_def CARD_VALUE_ORDER_def)
  have it: "iteration_order (\<lambda>s. s)"
    by (simp add: iteration_order_def)
  from search_duplicate_raises [OF vh dh vd it] show ?thesis
    by blast
qed

subsection \<open>The candidates that the search examines\<close>













end
